theory Spec2Isabelle
  imports Main
begin

section \<open>Data model of \<^verbatim>\<open>main.go\<close>\<close>

text \<open>
  Go strings are byte sequences, so a Go \<^verbatim>\<open>string\<close> is a \<^typ>\<open>string\<close> here.
  \<^verbatim>\<open>http.Header\<close> is \<^verbatim>\<open>map[string][]string\<close>, the result of one check is
  \<^verbatim>\<open>map[string]bool\<close>, and the aggregate kept for the CSV export is
  \<^verbatim>\<open>map[string]map[string]bool\<close>. A Go \<^verbatim>\<open>error\<close> is a value that carries the
  message \<^verbatim>\<open>%v\<close> prints.
\<close>

type_synonym header = "string \<rightharpoonup> string list"

type_synonym results = "string \<rightharpoonup> bool"

datatype error = Error string

fun errmsg :: "error \<Rightarrow> string" where
  "errmsg (Error m) = m"

text \<open>Lines 19--26: the fixed list of header names.\<close>

definition requiredHeaders :: "string list" where
  "requiredHeaders =
     [''Content-Security-Policy'',
      ''Strict-Transport-Security'',
      ''X-Frame-Options'',
      ''X-Content-Type-Options'',
      ''Referrer-Policy'',
      ''Permissions-Policy'']"

section \<open>\<^verbatim>\<open>checkHeaders\<close> (lines 52--59)\<close>

text \<open>
  The loop stores, for each required name in turn, whether the header map has an entry
  under that key: \<^verbatim>\<open>_, present := headers[header]\<close> is the two-valued map index,
  true exactly when the key is in the map.
\<close>

definition checkHeaders :: "header \<Rightarrow> results" where
  "checkHeaders headers =
     foldl (\<lambda>results header. results(header \<mapsto> (headers header \<noteq> None)))
       Map.empty requiredHeaders"

section \<open>Library functions the program calls\<close>

text \<open>
  \<^verbatim>\<open>strings.HasPrefix\<close>, \<^verbatim>\<open>strings.Join\<close>, \<^verbatim>\<open>strings.Split\<close> (only ever called
  with the separator \<^verbatim>\<open>"\n"\<close>) and \<^verbatim>\<open>strings.TrimSpace\<close> belong to Go's standard
  library. They are written out here as that library documents them.
\<close>

definition HasPrefix :: "string \<Rightarrow> string \<Rightarrow> bool" where
  "HasPrefix s p = (length p \<le> length s \<and> take (length p) s = p)"

fun Join :: "string list \<Rightarrow> string \<Rightarrow> string" where
  "Join [] sep = []"
| "Join [x] sep = x"
| "Join (x # y # ys) sep = x @ sep @ Join (y # ys) sep"

text \<open>Splitting at every line feed: the result always has one more element than the
  text has line feeds, so the empty text yields one empty line.\<close>

fun Split :: "string \<Rightarrow> string list" where
  "Split [] = [[]]"
| "Split (c # cs) =
     (if c = CHR 0x0A then [] # Split cs
      else (case Split cs of [] \<Rightarrow> [[c]] | l # ls \<Rightarrow> (c # l) # ls))"

text \<open>
  \<^verbatim>\<open>strings.TrimSpace\<close> removes leading and trailing white space as Unicode defines it
  (\<^verbatim>\<open>unicode.IsSpace\<close>). On the bytes of a string these are the UTF-8 encodings of
  U+0009..U+000D, U+0020, U+0085, U+00A0, U+1680, U+2000..U+200A, U+2028, U+2029,
  U+202F, U+205F and U+3000.
\<close>

definition asciiSpace :: "char \<Rightarrow> bool" where
  "asciiSpace c = (c \<in> set [CHR 0x09, CHR 0x0A, CHR 0x0B, CHR 0x0C, CHR 0x0D, CHR 0x20])"

definition isSpaceRunes :: "string list" where
  "isSpaceRunes =
     [[CHR 0x09], [CHR 0x0A], [CHR 0x0B], [CHR 0x0C], [CHR 0x0D], [CHR 0x20],
      [CHR 0xC2, CHR 0x85], [CHR 0xC2, CHR 0xA0],
      [CHR 0xE1, CHR 0x9A, CHR 0x80],
      [CHR 0xE2, CHR 0x80, CHR 0x80], [CHR 0xE2, CHR 0x80, CHR 0x81],
      [CHR 0xE2, CHR 0x80, CHR 0x82], [CHR 0xE2, CHR 0x80, CHR 0x83],
      [CHR 0xE2, CHR 0x80, CHR 0x84], [CHR 0xE2, CHR 0x80, CHR 0x85],
      [CHR 0xE2, CHR 0x80, CHR 0x86], [CHR 0xE2, CHR 0x80, CHR 0x87],
      [CHR 0xE2, CHR 0x80, CHR 0x88], [CHR 0xE2, CHR 0x80, CHR 0x89],
      [CHR 0xE2, CHR 0x80, CHR 0x8A],
      [CHR 0xE2, CHR 0x80, CHR 0xA8], [CHR 0xE2, CHR 0x80, CHR 0xA9],
      [CHR 0xE2, CHR 0x80, CHR 0xAF],
      [CHR 0xE2, CHR 0x81, CHR 0x9F],
      [CHR 0xE3, CHR 0x80, CHR 0x80]]"

definition spaceWidth :: "string list \<Rightarrow> string \<Rightarrow> nat" where
  "spaceWidth runes s = (case find (HasPrefix s) runes of None \<Rightarrow> 0 | Some t \<Rightarrow> length t)"

fun trimRunes :: "string list \<Rightarrow> string \<Rightarrow> string" where
  "trimRunes runes [] = []"
| "trimRunes runes (c # cs) =
     (case spaceWidth runes (c # cs) of
        0 \<Rightarrow> c # cs
      | Suc n \<Rightarrow> trimRunes runes (drop n cs))"

definition TrimLeft :: "string \<Rightarrow> string" where
  "TrimLeft s = trimRunes isSpaceRunes s"

definition TrimRight :: "string \<Rightarrow> string" where
  "TrimRight s = rev (trimRunes (map rev isSpaceRunes) (rev s))"

definition TrimSpace :: "string \<Rightarrow> string" where
  "TrimSpace s = TrimRight (TrimLeft s)"

section \<open>The world outside the program\<close>

text \<open>
  Everything the program does not decide itself is a field of \<open>world\<close>:
  \<^item> \<open>httpGet skip n url\<close> is what \<^verbatim>\<open>client.Get(url)\<close> returns for the \<open>n\<close>-th request
    of the run (counted from 0) when the client was built with
    \<^verbatim>\<open>InsecureSkipVerify = skip\<close>: an error or the response's header map;
  \<^item> \<open>readFile\<close> is \<^verbatim>\<open>ioutil.ReadFile\<close>, \<open>createFile\<close> is the error of \<^verbatim>\<open>os.Create\<close>
    (if any), \<open>writeRecord n\<close> the error of the \<open>n\<close>-th \<^verbatim>\<open>writer.Write\<close> (if any);
  \<^item> Go leaves the order of \<^verbatim>\<open>range\<close> over a map unspecified. \<open>rangeResults n\<close> is
    the order in which the result map of the \<open>n\<close>-th request is walked (lines 64 and
    173), \<open>rangeAggregate\<close> the order in which \<^verbatim>\<open>writeResultsToCSV\<close> walks the aggregate
    (line 91);
  \<^item> \<open>presentColor\<close> and \<open>missingColor\<close> are the two colouring functions of lines 29--30.
\<close>

record world =
  httpGet :: "bool \<Rightarrow> nat \<Rightarrow> string \<Rightarrow> error + header"
  readFile :: "string \<Rightarrow> error + string"
  createFile :: "string \<Rightarrow> error option"
  writeRecord :: "nat \<Rightarrow> error option"
  rangeResults :: "nat \<Rightarrow> string list"
  rangeAggregate :: "string list"
  presentColor :: "string \<Rightarrow> string"
  missingColor :: "string \<Rightarrow> string"

text \<open>
  A \<^verbatim>\<open>range\<close> over a map visits every entry once. \<open>range_order m ks\<close> says that \<open>ks\<close>
  is an order Go may choose for \<open>m\<close>; \<open>rangeMap m ks\<close> is the sequence of entries the loop
  body then sees.
\<close>

definition range_order :: "('k \<rightharpoonup> 'v) \<Rightarrow> 'k list \<Rightarrow> bool" where
  "range_order m ks = (distinct ks \<and> set ks = dom m)"

definition rangeMap :: "('k \<rightharpoonup> 'v) \<Rightarrow> 'k list \<Rightarrow> ('k \<times> 'v) list" where
  "rangeMap m ks = List.map_filter (\<lambda>k. map_option (Pair k) (m k)) ks"

section \<open>\<^verbatim>\<open>fetchHeaders\<close> (lines 37--49)\<close>

text \<open>
  The function returns the client's answer; the second component is the list of the
  URLs handed to \<^verbatim>\<open>client.Get\<close> so far, extended by this request.
\<close>

definition fetchHeaders ::
  "world \<Rightarrow> bool \<Rightarrow> string list \<Rightarrow> string \<Rightarrow> (error + header) \<times> string list" where
  "fetchHeaders w skip reqs url =
     (let url' = (if \<not> HasPrefix url ''http://'' \<and> \<not> HasPrefix url ''https://''
                  then ''http://'' @ url else url)
      in (httpGet w skip (length reqs) url', reqs @ [url']))"

section \<open>\<^verbatim>\<open>displayResults\<close> (lines 62--71) and the missing-only branch (lines 171--180)\<close>

definition displayResults :: "world \<Rightarrow> string list \<Rightarrow> string \<Rightarrow> results \<Rightarrow> string list" where
  "displayResults w ks url results =
     (''\<newline>Results for '' @ url @ '':\<newline>'') #
     map (\<lambda>(header, present).
            if present then ''  '' @ header @ '': '' @ presentColor w ''Present'' @ ''\<newline>''
            else ''  '' @ header @ '': '' @ missingColor w ''Missing'' @ ''\<newline>'')
       (rangeMap results ks)"

definition missingOnly_lines :: "string list \<Rightarrow> string \<Rightarrow> results \<Rightarrow> string list" where
  "missingOnly_lines ks url results =
     (let missingHeaders =
            foldl (\<lambda>acc (header, present). if \<not> present then acc @ [header] else acc)
              [] (rangeMap results ks)
      in if length missingHeaders > 0
         then [url @ '' is missing: '' @ Join missingHeaders '', '' @ ''\<newline>'']
         else [])"

section \<open>\<^verbatim>\<open>writeResultsToCSV\<close> (lines 74--106)\<close>

text \<open>
  The file is modelled as the list of records handed to the CSV writer; how
  \<^verbatim>\<open>encoding/csv\<close> quotes a field is not part of the program. The result is the file
  (if it was created) and the error returned (if any). The deferred \<^verbatim>\<open>writer.Flush()\<close>
  and \<^verbatim>\<open>file.Close()\<close> return nothing the function looks at, so they have no branch
  here. An entry of the aggregate that is missing a required name would read as
  \<^verbatim>\<open>false\<close> in line 94, hence the comparison with \<open>Some True\<close>.
\<close>

definition csvRow :: "string \<Rightarrow> results \<Rightarrow> string list" where
  "csvRow url headers =
     foldl (\<lambda>row header. if headers header = Some True then row @ [''Present'']
                           else row @ [''Missing''])
       [url] requiredHeaders"

fun writeRows ::
  "world \<Rightarrow> nat \<Rightarrow> string list list \<Rightarrow> (string \<times> results) list
     \<Rightarrow> string list list \<times> error option" where
  "writeRows w n file [] = (file, None)"
| "writeRows w n file ((url, headers) # rest) =
     (case writeRecord w n of
        Some err \<Rightarrow> (file, Some err)
      | None \<Rightarrow> writeRows w (Suc n) (file @ [csvRow url headers]) rest)"

definition writeResultsToCSV ::
  "world \<Rightarrow> string \<Rightarrow> (string \<rightharpoonup> results) \<Rightarrow> string list list option \<times> error option" where
  "writeResultsToCSV w filePath results =
     (case createFile w filePath of
        Some err \<Rightarrow> (None, Some err)
      | None \<Rightarrow>
          (let header = [''URL''] @ requiredHeaders
           in case writeRecord w 0 of
                Some err \<Rightarrow> (Some [], Some err)
              | None \<Rightarrow>
                  (case writeRows w 1 [header] (rangeMap results (rangeAggregate w)) of
                     (file, e) \<Rightarrow> (Some file, e))))"

section \<open>\<^verbatim>\<open>readURLsFromFile\<close> (lines 109--124)\<close>

definition readURLsFromFile :: "world \<Rightarrow> string \<Rightarrow> error + string list" where
  "readURLsFromFile w filePath =
     (case readFile w filePath of
        Inl err \<Rightarrow> Inl err
      | Inr data \<Rightarrow>
          Inr (foldl (\<lambda>urls line. let trimmed = TrimSpace line
                                   in if trimmed \<noteq> [] then urls @ [trimmed] else urls)
                 [] (Split data)))"

section \<open>\<^verbatim>\<open>main\<close> (lines 126--194)\<close>

text \<open>The parsed command line: the four flags and \<^verbatim>\<open>flag.Args()\<close>.\<close>

record config =
  missingOnly :: bool
  skipSSL :: bool
  outputFile :: string
  inputFile :: string
  args :: "string list"

text \<open>
  What a run does, as far as it can be observed: the URLs requested, what was printed
  (one element per call of \<^verbatim>\<open>fmt.Printf\<close> or \<^verbatim>\<open>fmt.Println\<close>), what was logged (one
  element per call of \<^verbatim>\<open>log.Printf\<close> or \<^verbatim>\<open>log.Fatalf\<close>, without the logger's
  time stamp), the aggregate \<^verbatim>\<open>resultsForCSV\<close>, the CSV file and the exit status.
\<close>

record run =
  requests :: "string list"
  stdout :: "string list"
  logged :: "string list"
  resultsForCSV :: "string \<rightharpoonup> results"
  csvFile :: "string list list option"
  exitStatus :: nat

definition start :: run where
  "start = \<lparr>requests = [], stdout = [], logged = [], resultsForCSV = Map.empty,
            csvFile = None, exitStatus = 0\<rparr>"

definition usage :: string where
  "usage = ''Usage: go run main.go [--missing] [--skip-ssl] [--input=<file>] [--output=<file.csv>] <URL1> <URL2> ...''"

text \<open>Lines 134--144: the URL list, or the error that makes \<^verbatim>\<open>main\<close> stop.\<close>

definition assembleURLs :: "world \<Rightarrow> config \<Rightarrow> error + string list" where
  "assembleURLs w cfg =
     (let urls = args cfg
      in if inputFile cfg \<noteq> []
         then (case readURLsFromFile w (inputFile cfg) of
                 Inl err \<Rightarrow> Inl err
               | Inr fileURLs \<Rightarrow> Inr (urls @ fileURLs))
         else Inr urls)"

text \<open>Lines 161--184: the body of the loop, and the loop.\<close>

definition processURL :: "world \<Rightarrow> config \<Rightarrow> run \<Rightarrow> string \<Rightarrow> run" where
  "processURL w cfg st url =
     (case fetchHeaders w (skipSSL cfg) (requests st) url of
        (Inl err, reqs) \<Rightarrow>
          st\<lparr>requests := reqs,
             logged := logged st @
               [''Error fetching headers for '' @ url @ '': '' @ errmsg err @ ''\<newline>'']\<rparr>
      | (Inr headers, reqs) \<Rightarrow>
          (let results = checkHeaders headers;
               ks = rangeResults w (length (requests st));
               st' = st\<lparr>requests := reqs,
                        resultsForCSV := (resultsForCSV st)(url \<mapsto> results)\<rparr>
           in if missingOnly cfg
              then st'\<lparr>stdout := stdout st @ missingOnly_lines ks url results\<rparr>
              else st'\<lparr>stdout := stdout st @ displayResults w ks url results\<rparr>))"

fun processURLs :: "world \<Rightarrow> config \<Rightarrow> run \<Rightarrow> string list \<Rightarrow> run" where
  "processURLs w cfg st [] = st"
| "processURLs w cfg st (url # urls) = processURLs w cfg (processURL w cfg st url) urls"

definition main :: "world \<Rightarrow> config \<Rightarrow> run" where
  "main w cfg =
     (case assembleURLs w cfg of
        Inl err \<Rightarrow>
          start\<lparr>logged := [''Error reading URLs from file: '' @ errmsg err @ ''\<newline>''],
                exitStatus := 1\<rparr>
      | Inr urls \<Rightarrow>
          if length urls = 0
          then start\<lparr>stdout := [usage @ ''\<newline>''], exitStatus := 1\<rparr>
          else
            (let st = processURLs w cfg start urls
             in if outputFile cfg \<noteq> []
                then (case writeResultsToCSV w (outputFile cfg) (resultsForCSV st) of
                        (file, Some err) \<Rightarrow>
                          st\<lparr>csvFile := file,
                             logged := logged st @
                               [''Error writing to CSV: '' @ errmsg err @ ''\<newline>''],
                             exitStatus := 1\<rparr>
                      | (file, None) \<Rightarrow>
                          st\<lparr>csvFile := file,
                             stdout := stdout st @
                               [''\<newline>Results exported to '' @ outputFile cfg @ ''\<newline>'']\<rparr>)
                else st))"

section \<open>Notions of the specification\<close>

text \<open>
  The definitions of this section are not part of the program. They say in HOL what the
  specification's sentences talk about, so that the program can be compared with them.
\<close>






text \<open>
  ``A URL that has a scheme'': a name made of letters, digits, \<^verbatim>\<open>+\<close>, \<^verbatim>\<open>-\<close> and \<^verbatim>\<open>.\<close>
  that begins with a letter, followed by \<^verbatim>\<open>://\<close>.
\<close>

definition isLetter :: "char \<Rightarrow> bool" where
  "isLetter c = (c \<in> set ''abcdefghijklmnopqrstuvwxyzABCDEFGHIJKLMNOPQRSTUVWXYZ'')"

definition schemeChar :: "char \<Rightarrow> bool" where
  "schemeChar c = (isLetter c \<or> c \<in> set ''0123456789+-.'')"

definition has_scheme :: "string \<Rightarrow> bool" where
  "has_scheme url =
     (case takeWhile schemeChar url of
        [] \<Rightarrow> False
      | c # cs \<Rightarrow> isLetter c \<and> HasPrefix (dropWhile schemeChar url) ''://'')"

text \<open>``The six cells of a row'': for each required name, \<^verbatim>\<open>Present\<close> or \<^verbatim>\<open>Missing\<close>.\<close>

abbreviation cells :: "results \<Rightarrow> string list" where
  "cells headers \<equiv>
     map (\<lambda>header. if headers header = Some True then ''Present'' else ''Missing'') requiredHeaders"

text \<open>
  ``The successfully fetched URLs'': the URLs of the list, as given, whose request is
  answered with a header map, each with that map, in the order of processing. The
  requests are those the loop of \<^verbatim>\<open>main\<close> issues.
\<close>

fun fetched :: "world \<Rightarrow> bool \<Rightarrow> string list \<Rightarrow> string list \<Rightarrow> (string \<times> header) list" where
  "fetched w skip reqs [] = []"
| "fetched w skip reqs (url # urls) =
     (case fetchHeaders w skip reqs url of
        (Inl err, reqs') \<Rightarrow> fetched w skip reqs' urls
      | (Inr headers, reqs') \<Rightarrow> (url, headers) # fetched w skip reqs' urls)"

section \<open>Example worlds\<close>

text \<open>
  A world in which the \<open>n\<close>-th request is answered with \<open>answers n\<close>, every file is
  empty, no file operation fails, every result map is walked in the order of the
  required list, and the aggregate is walked in the order \<open>order\<close>.
\<close>

definition example_world :: "(nat \<Rightarrow> error + header) \<Rightarrow> string list \<Rightarrow> world" where
  "example_world answers order =
     \<lparr>httpGet = (\<lambda>skip n url. answers n),
      readFile = (\<lambda>path. Inr []),
      createFile = (\<lambda>path. None),
      writeRecord = (\<lambda>n. None),
      rangeResults = (\<lambda>n. requiredHeaders),
      rangeAggregate = order,
      presentColor = (\<lambda>s. s),
      missingColor = (\<lambda>s. s)\<rparr>"

definition example_config :: "bool \<Rightarrow> string list \<Rightarrow> config" where
  "example_config missing urls =
     \<lparr>missingOnly = missing, skipSSL = False, outputFile = ''out.csv'', inputFile = [],
      args = urls\<rparr>"

text \<open>
  Three runs used below. In \<open>world_reversed\<close> two sites answer without any required
  header and the aggregate is walked in the order \<^verbatim>\<open>b\<close>, \<^verbatim>\<open>a\<close>. In \<open>world_repeat\<close>
  the first request is answered without any required header and every later one with
  \<^verbatim>\<open>X-Frame-Options\<close>. In \<open>world_failing\<close> the first request fails and every later
  one is answered without any required header.
\<close>

definition world_reversed :: world where
  "world_reversed = example_world (\<lambda>n. Inr Map.empty) [''b'', ''a'']"

definition world_repeat :: world where
  "world_repeat =
     example_world (\<lambda>n. if n = 0 then Inr Map.empty else Inr [''X-Frame-Options'' \<mapsto> [''DENY'']])
       [''a'']"


text \<open>In \<open>world_file\<close> every file holds two URLs among blank lines.\<close>

definition world_file :: world where
  "world_file =
     world_reversed\<lparr>readFile :=
       (\<lambda>path. Inr ''  https://a.example \<newline>\<newline>   \<newline>b.example\<newline>'')\<rparr>"

section \<open>Properties of \<^verbatim>\<open>checkHeaders\<close>\<close>

lemma requiredHeaders_distinct: "distinct requiredHeaders"
  by (simp add: requiredHeaders_def)

lemma requiredHeaders_length: "length requiredHeaders = 6"
  by (simp add: requiredHeaders_def)

lemma foldl_upd_dom:
  "dom (foldl (\<lambda>m k. m(k \<mapsto> f k)) m0 ks) = dom m0 \<union> set ks"
  by (induction ks arbitrary: m0) auto

lemma foldl_upd_notin:
  "k \<notin> set ks \<Longrightarrow> foldl (\<lambda>m k. m(k \<mapsto> f k)) m0 ks k = m0 k"
  by (induction ks arbitrary: m0) auto


lemma checkHeaders_dom: "dom (checkHeaders headers) = set requiredHeaders"
  by (simp add: checkHeaders_def foldl_upd_dom)


lemma checkHeaders_other:
  "k \<notin> set requiredHeaders \<Longrightarrow> checkHeaders headers k = None"
  unfolding checkHeaders_def by (simp add: foldl_upd_notin)

text \<open>
  C5. For every header map, the result of \<^verbatim>\<open>checkHeaders\<close> has exactly the six
  required header names as its keys: the key set is the set of the required names, that
  set has six elements, every required name is mapped to a boolean (never absent), and
  every other name is absent.
\<close>

theorem C5_checkHeaders_keys:
  "dom (checkHeaders headers) = set requiredHeaders
   \<and> card (dom (checkHeaders headers)) = 6
   \<and> (\<forall>k. (\<exists>b. checkHeaders headers k = Some b) = (k \<in> set requiredHeaders))"
proof -
  have "card (set requiredHeaders) = length requiredHeaders"
    using requiredHeaders_distinct by (rule distinct_card)
  then have "card (dom (checkHeaders headers)) = 6"
    by (simp add: checkHeaders_dom requiredHeaders_length)
  moreover have "(\<exists>b. checkHeaders headers k = Some b) = (k \<in> set requiredHeaders)" for k
    using checkHeaders_dom [of headers] by (auto simp: dom_def)
  ultimately show ?thesis
    by (simp add: checkHeaders_dom)
qed

theorem C5_checkHeaders_keys_witness:
  "dom (checkHeaders [''X-Frame-Options'' \<mapsto> [''DENY''], ''Server'' \<mapsto> [''nginx'']]) =
     set requiredHeaders
   \<and> card (dom (checkHeaders [''X-Frame-Options'' \<mapsto> [''DENY''], ''Server'' \<mapsto> [''nginx'']])) = 6
   \<and> checkHeaders [''X-Frame-Options'' \<mapsto> [''DENY''], ''Server'' \<mapsto> [''nginx'']] ''Server'' = None"
proof -
  let ?h = "[''X-Frame-Options'' \<mapsto> [''DENY''], ''Server'' \<mapsto> [''nginx'']]"
  have "''Server'' \<notin> set requiredHeaders"
    by (simp add: requiredHeaders_def)
  moreover have "(\<exists>b. checkHeaders ?h ''Server'' = Some b) = (''Server'' \<in> set requiredHeaders)"
    using C5_checkHeaders_keys [of ?h] by blast
  ultimately have "checkHeaders ?h ''Server'' = None"
    by simp
  then show ?thesis
    using C5_checkHeaders_keys [of ?h] by blast
qed

section \<open>C1: what the presence check tests\<close>






section \<open>C2: the line of the missing-only mode\<close>

lemma rangeMap_total:
  "set ks \<subseteq> dom m \<Longrightarrow> rangeMap m ks = map (\<lambda>k. (k, the (m k))) ks"
  by (induction ks) (auto simp: rangeMap_def)








section \<open>The rows of the CSV file\<close>

lemma csvRow_foldl:
  "foldl (\<lambda>row header. if P header then row @ [a] else row @ [b]) row hs =
     row @ map (\<lambda>header. if P header then a else b) hs"
  by (induction hs arbitrary: row) auto

lemma csvRow_eq: "csvRow url headers = url # cells headers"
  unfolding csvRow_def by (simp add: csvRow_foldl)

lemma csvRow_hd: "hd (csvRow url headers) = url"
  by (simp add: csvRow_eq)



lemma writeRows_prefix:
  "writeRows w n out rows = (out', e) \<Longrightarrow>
     \<exists>k \<le> length rows. out' = out @ map (\<lambda>(url, headers). csvRow url headers) (take k rows)
        \<and> (e = None \<longrightarrow> k = length rows)"
proof (induction rows arbitrary: n out)
  case Nil
  then show ?case by simp
next
  case (Cons r rows)
  obtain url headers where r: "r = (url, headers)" by (cases r)
  show ?case
  proof (cases "writeRecord w n")
    case None
    with Cons.prems r
    have "writeRows w (Suc n) (out @ [csvRow url headers]) rows = (out', e)"
      by simp
    from Cons.IH [OF this] obtain k where
      k: "k \<le> length rows"
        "out' = (out @ [csvRow url headers]) @ map (\<lambda>(url, headers). csvRow url headers) (take k rows)"
        "e = None \<longrightarrow> k = length rows"
      by blast
    then show ?thesis
      using r by (intro exI [of _ "Suc k"]) simp
  next
    case (Some err)
    with Cons.prems r have "out' = out" "e = Some err"
      by simp_all
    then show ?thesis
      by (intro exI [of _ 0]) simp
  qed
qed


lemma rangeMap_order:
  "range_order m ks \<Longrightarrow> rangeMap m ks = map (\<lambda>k. (k, the (m k))) ks"
  by (rule rangeMap_total) (simp add: range_order_def)




section \<open>The loop of \<^verbatim>\<open>main\<close>\<close>

lemma processURL_requests:
  "requests (processURL w cfg st url) = snd (fetchHeaders w (skipSSL cfg) (requests st) url)"
  by (simp add: processURL_def Let_def split: prod.splits sum.splits)

lemma processURL_results:
  "resultsForCSV (processURL w cfg st url) =
     (case fst (fetchHeaders w (skipSSL cfg) (requests st) url) of
        Inl err \<Rightarrow> resultsForCSV st
      | Inr headers \<Rightarrow> (resultsForCSV st)(url \<mapsto> checkHeaders headers))"
  by (simp add: processURL_def Let_def split: prod.splits sum.splits)




lemma processURLs_results:
  "resultsForCSV (processURLs w cfg st urls) =
     foldl (\<lambda>m (url, headers). m(url \<mapsto> checkHeaders headers)) (resultsForCSV st)
       (fetched w (skipSSL cfg) (requests st) urls)"
proof (induction urls arbitrary: st)
  case Nil
  then show ?case by simp
next
  case (Cons url urls)
  obtain res reqs where f: "fetchHeaders w (skipSSL cfg) (requests st) url = (res, reqs)"
    by (cases "fetchHeaders w (skipSSL cfg) (requests st) url")
  show ?case
    using f Cons.IH [of "processURL w cfg st url"]
    by (cases res) (simp_all add: processURL_requests processURL_results)
qed

lemma foldl_store_dom:
  "dom (foldl (\<lambda>m (k, v). m(k \<mapsto> f v)) m0 xs) = dom m0 \<union> fst ` set xs"
  by (induction xs arbitrary: m0) auto

lemma foldl_store_last:
  "foldl (\<lambda>m (k, v). m(k \<mapsto> f v)) m0 xs k =
     (case map_of (rev xs) k of None \<Rightarrow> m0 k | Some v \<Rightarrow> Some (f v))"
proof (induction xs rule: rev_induct)
  case Nil
  then show ?case by simp
next
  case (snoc x xs)
  obtain k' v' where x: "x = (k', v')" by (cases x)
  show ?case
    using snoc by (simp add: x)
qed

lemma processURLs_dom:
  "dom (resultsForCSV (processURLs w cfg st urls)) =
     dom (resultsForCSV st) \<union> fst ` set (fetched w (skipSSL cfg) (requests st) urls)"
  by (simp add: processURLs_results foldl_store_dom)

section \<open>What \<^verbatim>\<open>main\<close> leaves behind\<close>

lemma processURL_exitStatus: "exitStatus (processURL w cfg st url) = exitStatus st"
  by (simp add: processURL_def Let_def split: prod.splits sum.splits)

lemma processURL_csvFile: "csvFile (processURL w cfg st url) = csvFile st"
  by (simp add: processURL_def Let_def split: prod.splits sum.splits)

lemma processURLs_exitStatus: "exitStatus (processURLs w cfg st urls) = exitStatus st"
  by (induction urls arbitrary: st) (simp_all add: processURL_exitStatus)

lemma processURLs_csvFile: "csvFile (processURLs w cfg st urls) = csvFile st"
  by (induction urls arbitrary: st) (simp_all add: processURL_csvFile)

lemma main_results:
  assumes "assembleURLs w cfg = Inr urls"
  shows "resultsForCSV (main w cfg) = resultsForCSV (processURLs w cfg start urls)"
proof (cases urls)
  case Nil
  with assms show ?thesis by (simp add: main_def start_def)
next
  case (Cons u us)
  with assms show ?thesis
    by (simp add: main_def Let_def split: prod.splits option.splits)
qed

lemma main_dom:
  assumes "assembleURLs w cfg = Inr urls"
  shows "dom (resultsForCSV (main w cfg)) = fst ` set (fetched w (skipSSL cfg) [] urls)"
  by (simp add: main_results [OF assms] processURLs_dom start_def)

text \<open>The records of the file a run leaves behind, whether the export failed or not.\<close>

lemma main_csvFile:
  assumes urls: "assembleURLs w cfg = Inr urls"
    and rows: "csvFile (main w cfg) = Some rows"
    and order: "range_order (resultsForCSV (main w cfg)) (rangeAggregate w)"
  shows "\<exists>k \<le> length (rangeAggregate w).
           (rows = [] \<or>
            rows = (''URL'' # requiredHeaders) #
              map (\<lambda>url. csvRow url (the (resultsForCSV (main w cfg) url)))
                (take k (rangeAggregate w)))
           \<and> (exitStatus (main w cfg) = 0 \<longrightarrow> rows \<noteq> [] \<and> k = length (rangeAggregate w))"
proof -
  let ?st = "processURLs w cfg start urls"
  let ?agg = "resultsForCSV ?st"
  have agg: "resultsForCSV (main w cfg) = ?agg"
    using urls by (rule main_results)
  have none: "csvFile ?st = None" and zero: "exitStatus ?st = 0"
    by (simp_all add: processURLs_csvFile processURLs_exitStatus start_def)
  obtain out e where wr: "writeResultsToCSV w (outputFile cfg) ?agg = (out, e)"
    by (cases "writeResultsToCSV w (outputFile cfg) ?agg")
  have branch: "urls \<noteq> [] \<and> outputFile cfg \<noteq> []"
    using urls rows none by (auto simp: main_def start_def Let_def split: if_splits)
  then have out: "out = Some rows"
    using urls rows wr by (auto simp: main_def Let_def split: option.splits)
  have exit: "e = None" if "exitStatus (main w cfg) = 0"
    using that urls branch wr by (auto simp: main_def Let_def split: option.splits)
  have created: "createFile w (outputFile cfg) = None"
    using wr out by (auto simp: writeResultsToCSV_def split: option.splits)
  show ?thesis
  proof (cases "writeRecord w 0")
    case (Some err)
    with wr out created have "rows = []" "e = Some err"
      by (simp_all add: writeResultsToCSV_def)
    then show ?thesis
      using exit by (intro exI [of _ 0]) auto
  next
    case None
    with wr out created
    have "writeRows w 1 [''URL'' # requiredHeaders] (rangeMap ?agg (rangeAggregate w)) = (rows, e)"
      by (auto simp: writeResultsToCSV_def Let_def split: prod.splits)
    from writeRows_prefix [OF this] obtain k where
      k: "k \<le> length (rangeMap ?agg (rangeAggregate w))"
        "rows = [''URL'' # requiredHeaders] @
           map (\<lambda>(url, headers). csvRow url headers) (take k (rangeMap ?agg (rangeAggregate w)))"
        "e = None \<longrightarrow> k = length (rangeMap ?agg (rangeAggregate w))"
      by blast
    have rm: "rangeMap ?agg (rangeAggregate w) = map (\<lambda>k. (k, the (?agg k))) (rangeAggregate w)"
      using order agg by (intro rangeMap_order) simp
    have "rows = (''URL'' # requiredHeaders) #
            map (\<lambda>url. csvRow url (the (?agg url))) (take k (rangeAggregate w))"
      using k(2) by (simp add: rm take_map comp_def)
    then show ?thesis
      using k(1,3) exit agg rm by (intro exI [of _ k]) auto
  qed
qed


text \<open>The run of \<open>world_repeat\<close> on the same URL string given twice.\<close>

lemma world_repeat_run:
  "assembleURLs world_repeat (example_config True [''a'', ''a'']) = Inr [''a'', ''a'']"
  "csvFile (main world_repeat (example_config True [''a'', ''a''])) =
     Some [[''URL'', ''Content-Security-Policy'', ''Strict-Transport-Security'',
            ''X-Frame-Options'', ''X-Content-Type-Options'', ''Referrer-Policy'',
            ''Permissions-Policy''],
           [''a'', ''Missing'', ''Missing'', ''Present'', ''Missing'', ''Missing'', ''Missing'']]"
  "exitStatus (main world_repeat (example_config True [''a'', ''a''])) = 0"
  "map fst (fetched world_repeat False [] [''a'', ''a'']) = [''a'', ''a'']"
  by code_simp+

lemma world_repeat_order:
  "range_order (resultsForCSV (main world_repeat (example_config True [''a'', ''a''])))
     (rangeAggregate world_repeat)"
proof -
  have "fst ` set (fetched world_repeat False [] [''a'', ''a'']) = {''a''}"
    using world_repeat_run(4) by (metis list.set_map list.simps(15) insert_absorb2 empty_set)
  moreover have "skipSSL (example_config True [''a'', ''a'']) = False"
    by (simp add: example_config_def)
  moreover have "rangeAggregate world_repeat = [''a'']"
    by (simp add: world_repeat_def example_world_def)
  ultimately show ?thesis
    using main_dom [OF world_repeat_run(1)] by (simp add: range_order_def)
qed







section \<open>C10: one row per URL string\<close>

lemma main_lookup:
  assumes "assembleURLs w cfg = Inr urls"
  shows "resultsForCSV (main w cfg) url =
           (case map_of (rev (fetched w (skipSSL cfg) [] urls)) url of
              None \<Rightarrow> None
            | Some headers \<Rightarrow> Some (checkHeaders headers))"
  by (simp add: main_results [OF assms] processURLs_results foldl_store_last start_def)

text \<open>
  C10. The aggregate is keyed by the URL string as given. After the run, the entry of a
  URL string is the result of the last successful fetch of that string in the list: a
  later result overwrites an earlier one. Whatever part of the CSV file is written, the
  URLs of its rows (the first cells of the rows after the header row) are pairwise
  distinct and are URLs that were fetched successfully: at most one row per distinct
  URL string.
\<close>

theorem C10_one_row_per_url:
  assumes "assembleURLs w cfg = Inr urls"
    and "csvFile (main w cfg) = Some rows"
    and "range_order (resultsForCSV (main w cfg)) (rangeAggregate w)"
  shows "resultsForCSV (main w cfg) url =
           (case map_of (rev (fetched w (skipSSL cfg) [] urls)) url of
              None \<Rightarrow> None
            | Some headers \<Rightarrow> Some (checkHeaders headers))
    \<and> distinct (map hd (tl rows))
    \<and> set (map hd (tl rows)) \<subseteq> fst ` set (fetched w (skipSSL cfg) [] urls)"
proof -
  let ?ks = "rangeAggregate w"
  from main_csvFile [OF assms] obtain k where
    rows: "rows = [] \<or> rows = (''URL'' # requiredHeaders) #
              map (\<lambda>url. csvRow url (the (resultsForCSV (main w cfg) url))) (take k ?ks)"
    by blast
  then have col: "map hd (tl rows) = [] \<or> map hd (tl rows) = take k ?ks"
    by (auto simp: comp_def csvRow_hd)
  have d: "distinct ?ks" and s: "set ?ks = fst ` set (fetched w (skipSSL cfg) [] urls)"
    using assms(3) by (simp_all add: range_order_def main_dom [OF assms(1)])
  have "distinct (map hd (tl rows))"
    using col d by (auto simp: distinct_take)
  moreover have "set (map hd (tl rows)) \<subseteq> set ?ks"
    using col set_take_subset [of k ?ks] by (elim disjE) simp_all
  then have "set (map hd (tl rows)) \<subseteq> fst ` set (fetched w (skipSSL cfg) [] urls)"
    by (simp only: s)
  ultimately show ?thesis
    using main_lookup [OF assms(1)] by blast
qed

theorem C10_one_row_per_url_witness:
  "resultsForCSV (main world_repeat (example_config True [''a'', ''a''])) ''a'' =
     Some (checkHeaders [''X-Frame-Options'' \<mapsto> [''DENY'']])
   \<and> distinct (map hd (tl
        [[''URL'', ''Content-Security-Policy'', ''Strict-Transport-Security'',
          ''X-Frame-Options'', ''X-Content-Type-Options'', ''Referrer-Policy'',
          ''Permissions-Policy''],
         [''a'', ''Missing'', ''Missing'', ''Present'', ''Missing'', ''Missing'', ''Missing'']]))"
proof -
  have "fetched world_repeat (skipSSL (example_config True [''a'', ''a''])) [] [''a'', ''a''] =
          [(''a'', Map.empty), (''a'', [''X-Frame-Options'' \<mapsto> [''DENY'']])]"
    by (simp add: fetchHeaders_def world_repeat_def example_world_def example_config_def
        HasPrefix_def)
  then show ?thesis
    using C10_one_row_per_url [OF world_repeat_run(1) world_repeat_run(2) world_repeat_order,
        of "''a''"]
    by simp
qed

section \<open>C6: the URL that is requested\<close>

lemma HasPrefix_append: "HasPrefix s p \<Longrightarrow> s = p @ drop (length p) s"
  by (metis HasPrefix_def append_take_drop_id)

lemma http_has_scheme: "has_scheme (''http://'' @ rest)"
  by (simp add: has_scheme_def schemeChar_def isLetter_def HasPrefix_def)

lemma https_has_scheme: "has_scheme (''https://'' @ rest)"
  by (simp add: has_scheme_def schemeChar_def isLetter_def HasPrefix_def)

lemma HasPrefix_has_scheme:
  "HasPrefix url ''http://'' \<or> HasPrefix url ''https://'' \<Longrightarrow> has_scheme url"
  using http_has_scheme https_has_scheme HasPrefix_append by metis

text \<open>
  C6, as amended. \<^verbatim>\<open>fetchHeaders\<close> issues exactly one request. A URL string that
  begins with \<^verbatim>\<open>http://\<close> or \<^verbatim>\<open>https://\<close> (in lower case) is requested unchanged; every
  other string is requested with \<^verbatim>\<open>http://\<close> put in front of it. In particular every
  string with no scheme gets the prefix, the requested URL always has a scheme, and the
  answer returned is the client's answer for the requested URL.
\<close>

theorem C6_fetchHeaders_request:
  "snd (fetchHeaders w skip reqs url) =
     reqs @ [if HasPrefix url ''http://'' \<or> HasPrefix url ''https://'' then url
             else ''http://'' @ url]
   \<and> (\<not> has_scheme url \<longrightarrow> snd (fetchHeaders w skip reqs url) = reqs @ [''http://'' @ url])
   \<and> has_scheme (last (snd (fetchHeaders w skip reqs url)))
   \<and> fst (fetchHeaders w skip reqs url) =
       httpGet w skip (length reqs) (last (snd (fetchHeaders w skip reqs url)))"
proof -
  let ?req = "if HasPrefix url ''http://'' \<or> HasPrefix url ''https://'' then url
              else ''http://'' @ url"
  have req: "snd (fetchHeaders w skip reqs url) = reqs @ [?req]"
    by (simp add: fetchHeaders_def Let_def)
  have "has_scheme ?req"
    using HasPrefix_has_scheme [of url] http_has_scheme [of url] by simp
  moreover have "snd (fetchHeaders w skip reqs url) = reqs @ [''http://'' @ url]"
    if "\<not> has_scheme url"
    using that HasPrefix_has_scheme [of url] req by auto
  moreover have "fst (fetchHeaders w skip reqs url) = httpGet w skip (length reqs) ?req"
    by (simp add: fetchHeaders_def Let_def)
  ultimately show ?thesis
    using req by simp
qed

theorem C6_fetchHeaders_request_witness:
  "\<not> has_scheme ''example.com''
   \<and> snd (fetchHeaders world_reversed False [] ''example.com'') = [''http://example.com'']
   \<and> snd (fetchHeaders world_reversed False [''http://example.com''] ''https://example.org'') =
       [''http://example.com'', ''https://example.org'']"
proof -
  have n: "\<not> has_scheme ''example.com''"
    by (simp add: has_scheme_def schemeChar_def isLetter_def HasPrefix_def)
  have p: "HasPrefix ''https://example.org'' ''https://''"
    by (simp add: HasPrefix_def)
  show ?thesis
    using n p
      C6_fetchHeaders_request [of world_reversed False "[]" "''example.com''"]
      C6_fetchHeaders_request [of world_reversed False "[''http://example.com'']"
        "''https://example.org''"]
    by (simp add: HasPrefix_def)
qed

text \<open>
  C6 as stated fails for a URL whose scheme is not spelled \<^verbatim>\<open>http://\<close> or
  \<^verbatim>\<open>https://\<close>: it has a scheme and is not passed through unchanged.
\<close>

theorem C6_other_scheme_counterexample:
  "has_scheme ''ftp://example.com''
   \<and> snd (fetchHeaders world_reversed False [] ''ftp://example.com'') =
       [''http://ftp://example.com'']
   \<and> has_scheme ''HTTPS://example.com''
   \<and> snd (fetchHeaders world_reversed False [] ''HTTPS://example.com'') =
       [''http://HTTPS://example.com'']"
  by (simp add: has_scheme_def schemeChar_def isLetter_def HasPrefix_def fetchHeaders_def Let_def)

section \<open>C8: no URL at all\<close>

text \<open>
  C8. When the combined URL list is empty, the run prints the usage text, ends with
  status 1, issues no request, logs nothing and writes no file.
\<close>

theorem C8_usage_when_no_url:
  assumes "assembleURLs w cfg = Inr []"
  shows "main w cfg = start\<lparr>stdout := [usage @ ''\<newline>''], exitStatus := 1\<rparr>
    \<and> stdout (main w cfg) = [usage @ ''\<newline>'']
    \<and> exitStatus (main w cfg) = 1
    \<and> requests (main w cfg) = []
    \<and> logged (main w cfg) = []
    \<and> csvFile (main w cfg) = None"
  using assms by (simp add: main_def start_def)

theorem C8_usage_when_no_url_witness:
  "assembleURLs world_reversed ((example_config False [])\<lparr>inputFile := ''urls.txt''\<rparr>) = Inr []
   \<and> stdout (main world_reversed ((example_config False [])\<lparr>inputFile := ''urls.txt''\<rparr>)) =
       [''Usage: go run main.go [--missing] [--skip-ssl] [--input=<file>] [--output=<file.csv>] <URL1> <URL2> ...\<newline>'']
   \<and> exitStatus (main world_reversed ((example_config False [])\<lparr>inputFile := ''urls.txt''\<rparr>)) = 1
   \<and> requests (main world_reversed ((example_config False [])\<lparr>inputFile := ''urls.txt''\<rparr>)) = []"
proof -
  have a: "assembleURLs world_reversed ((example_config False [])\<lparr>inputFile := ''urls.txt''\<rparr>) = Inr []"
    by code_simp
  show ?thesis
    using a C8_usage_when_no_url [OF a] by (simp add: usage_def start_def)
qed

section \<open>C9: a request that fails\<close>



section \<open>C7: the list of URLs\<close>

lemma Split_nonempty: "Split s \<noteq> []"
  by (induction s) (auto split: list.splits)

lemma Join_Cons: "ls \<noteq> [] \<Longrightarrow> Join (l # ls) sep = l @ sep @ Join ls sep"
  by (cases ls) simp_all

lemma Join_Split: "Join (Split s) ''\<newline>'' = s"
proof (induction s)
  case Nil
  then show ?case by simp
next
  case (Cons c s)
  obtain l ls where sp: "Split s = l # ls"
    using Split_nonempty [of s] by (cases "Split s") auto
  show ?case
  proof (cases "c = CHR 0x0A")
    case True
    then show ?thesis
      using Cons.IH Split_nonempty [of s] by (simp add: Join_Cons)
  next
    case False
    show ?thesis
    proof (cases ls)
      case Nil
      with False sp Cons.IH show ?thesis by simp
    next
      case (Cons l' ls')
      with False sp Cons.IH show ?thesis by simp
    qed
  qed
qed

lemma Split_no_newline: "l \<in> set (Split s) \<Longrightarrow> CHR 0x0A \<notin> set l"
proof (induction s arbitrary: l)
  case Nil
  then show ?case by simp
next
  case (Cons c s)
  obtain l' ls where sp: "Split s = l' # ls"
    using Split_nonempty [of s] by (cases "Split s") auto
  show ?case
    using Cons sp by (cases "c = CHR 0x0A") auto
qed

lemma spaceWidth_ascii:
  assumes "asciiSpace c"
  shows "spaceWidth isSpaceRunes (c # cs) = 1"
proof -
  from assms consider "c = CHR 0x09" | "c = CHR 0x0A" | "c = CHR 0x0B" | "c = CHR 0x0C"
    | "c = CHR 0x0D" | "c = CHR 0x20"
    unfolding asciiSpace_def by fastforce
  then show ?thesis
    by cases (simp_all add: spaceWidth_def isSpaceRunes_def HasPrefix_def)
qed

lemma TrimLeft_blank: "\<forall>c \<in> set line. asciiSpace c \<Longrightarrow> TrimLeft line = []"
  unfolding TrimLeft_def
  by (induction line) (simp_all add: spaceWidth_ascii)

lemma TrimSpace_blank: "\<forall>c \<in> set line. asciiSpace c \<Longrightarrow> TrimSpace line = []"
  by (simp add: TrimSpace_def TrimLeft_blank TrimRight_def)

lemma collect_urls:
  "foldl (\<lambda>urls line. let trimmed = TrimSpace line
                         in if trimmed \<noteq> [] then urls @ [trimmed] else urls) acc ls =
     acc @ filter (\<lambda>url. url \<noteq> []) (map TrimSpace ls)"
  by (induction ls arbitrary: acc) (simp_all add: Let_def)

lemma readURLsFromFile_eq:
  "readFile w filePath = Inr data \<Longrightarrow>
     readURLsFromFile w filePath =
       Inr (filter (\<lambda>url. url \<noteq> []) (map TrimSpace (Split data)))"
  using collect_urls [of "[]"] by (simp add: readURLsFromFile_def)

text \<open>What trimming leaves: a part of the line that neither begins nor ends with ASCII
  white space.\<close>

lemma spaceWidth_zero:
  assumes "[] \<notin> set runes"
  shows "(spaceWidth runes s = 0) = (\<forall>t \<in> set runes. \<not> HasPrefix s t)"
proof (cases "find (HasPrefix s) runes")
  case None
  then have "\<forall>t \<in> set runes. \<not> HasPrefix s t"
    by (simp add: find_None_iff)
  with None show ?thesis
    by (simp add: spaceWidth_def)
next
  case (Some t)
  then have "t \<in> set runes" "HasPrefix s t"
    by (auto simp: find_Some_iff)
  with assms Some show ?thesis
    by (auto simp: spaceWidth_def)
qed

lemma spaceWidth_Nil: "[] \<notin> set runes \<Longrightarrow> spaceWidth runes [] = 0"
  by (auto simp: spaceWidth_zero HasPrefix_def)

lemma trimRunes_done: "[] \<notin> set runes \<Longrightarrow> spaceWidth runes (trimRunes runes s) = 0"
proof (induction runes s rule: trimRunes.induct)
  case (1 runes)
  then show ?case by (simp add: spaceWidth_Nil)
next
  case (2 runes c cs)
  then show ?case
    by (cases "spaceWidth runes (c # cs)") simp_all
qed

lemma trimRunes_suffix: "\<exists>a. s = a @ trimRunes runes s"
proof (induction runes s rule: trimRunes.induct)
  case (1 runes)
  then show ?case by simp
next
  case (2 runes c cs)
  show ?case
  proof (cases "spaceWidth runes (c # cs)")
    case 0
    then show ?thesis by simp
  next
    case (Suc n)
    with 2 obtain a where "drop n cs = a @ trimRunes runes (drop n cs)"
      by blast
    then have "c # cs = (c # take n cs @ a) @ trimRunes runes (drop n cs)"
      by (metis append_Cons append_assoc append_take_drop_id)
    with Suc show ?thesis
      by (metis trimRunes.simps(2) nat.simps(5))
  qed
qed

lemma isSpaceRunes_nonempty: "[] \<notin> set isSpaceRunes" "[] \<notin> set (map rev isSpaceRunes)"
  by (simp_all add: isSpaceRunes_def)

lemma ascii_rune: "asciiSpace c \<Longrightarrow> [c] \<in> set isSpaceRunes"
  by (auto simp: asciiSpace_def isSpaceRunes_def)

lemma TrimLeft_hd:
  assumes "TrimLeft s = c # cs"
  shows "\<not> asciiSpace c"
proof
  assume "asciiSpace c"
  then have "[c] \<in> set isSpaceRunes" by (rule ascii_rune)
  moreover have "HasPrefix (TrimLeft s) [c]"
    using assms by (simp add: HasPrefix_def)
  moreover have "spaceWidth isSpaceRunes (TrimLeft s) = 0"
    unfolding TrimLeft_def using isSpaceRunes_nonempty(1) by (rule trimRunes_done)
  ultimately show False
    using spaceWidth_zero [OF isSpaceRunes_nonempty(1)] by blast
qed

lemma TrimRight_last:
  assumes "TrimRight s = cs @ [c]"
  shows "\<not> asciiSpace c"
proof
  assume "asciiSpace c"
  then have "[c] \<in> set isSpaceRunes" by (rule ascii_rune)
  then have "rev [c] \<in> rev ` set isSpaceRunes"
    by (rule imageI)
  then have "[c] \<in> set (map rev isSpaceRunes)" by simp
  moreover have r: "trimRunes (map rev isSpaceRunes) (rev s) = c # rev cs"
    using assms by (metis TrimRight_def rev.simps(2) rev_rev_ident rev_append rev_singleton_conv append_Cons append_Nil)
  then have "HasPrefix (trimRunes (map rev isSpaceRunes) (rev s)) [c]"
    by (simp add: HasPrefix_def)
  moreover have "spaceWidth (map rev isSpaceRunes) (trimRunes (map rev isSpaceRunes) (rev s)) = 0"
    using isSpaceRunes_nonempty(2) by (rule trimRunes_done)
  ultimately show False
    using spaceWidth_zero [OF isSpaceRunes_nonempty(2)] by blast
qed

lemma TrimRight_prefix: "\<exists>b. s = TrimRight s @ b"
proof -
  obtain a where "rev s = a @ trimRunes (map rev isSpaceRunes) (rev s)"
    using trimRunes_suffix by blast
  then have "s = rev (trimRunes (map rev isSpaceRunes) (rev s)) @ rev a"
    by (metis rev_append rev_rev_ident)
  then show ?thesis
    unfolding TrimRight_def by blast
qed

lemma TrimSpace_part: "\<exists>a b. s = a @ TrimSpace s @ b"
proof -
  obtain a where a: "s = a @ TrimLeft s"
    unfolding TrimLeft_def using trimRunes_suffix by blast
  obtain b where b: "TrimLeft s = TrimRight (TrimLeft s) @ b"
    using TrimRight_prefix by blast
  have "s = a @ TrimSpace s @ b"
    unfolding TrimSpace_def using a b by metis
  then show ?thesis by blast
qed

lemma TrimSpace_ends:
  assumes "TrimSpace s \<noteq> []"
  shows "\<not> asciiSpace (hd (TrimSpace s)) \<and> \<not> asciiSpace (last (TrimSpace s))"
proof -
  obtain b where b: "TrimLeft s = TrimSpace s @ b"
    unfolding TrimSpace_def using TrimRight_prefix by blast
  with assms have "TrimLeft s = hd (TrimSpace s) # (tl (TrimSpace s) @ b)"
    by (metis append_Cons list.collapse)
  then have "\<not> asciiSpace (hd (TrimSpace s))"
    by (rule TrimLeft_hd)
  moreover have "TrimRight (TrimLeft s) = butlast (TrimSpace s) @ [last (TrimSpace s)]"
    using assms by (simp add: TrimSpace_def)
  then have "\<not> asciiSpace (last (TrimSpace s))"
    by (rule TrimRight_last)
  ultimately show ?thesis by blast
qed

text \<open>
  C7. Without an input file the URL list is the command-line URLs. With an input file
  that can be read, it is the command-line URLs in their order, followed by the
  white-space-trimmed lines of the file that are not empty after trimming, in the order
  of the file. The lines are the pieces between the line feeds of the file (joined by
  line feeds they give the file back). A line that consists of ASCII white space only,
  or of nothing, is trimmed to the empty string and so dropped; a trimmed line is a
  part of the line, and when it is not empty it neither begins nor ends with ASCII white
  space.
\<close>

theorem C7_url_list:
  "(inputFile cfg = [] \<longrightarrow> assembleURLs w cfg = Inr (args cfg))
   \<and> (inputFile cfg \<noteq> [] \<and> readFile w (inputFile cfg) = Inr data \<longrightarrow>
        assembleURLs w cfg =
          Inr (args cfg @ filter (\<lambda>url. url \<noteq> []) (map TrimSpace (Split data))))
   \<and> Join (Split data) ''\<newline>'' = data
   \<and> ((\<forall>c \<in> set line. asciiSpace c) \<longrightarrow> TrimSpace line = [])
   \<and> (TrimSpace line \<noteq> [] \<longrightarrow>
        \<not> asciiSpace (hd (TrimSpace line)) \<and> \<not> asciiSpace (last (TrimSpace line)))
   \<and> (\<exists>a b. line = a @ TrimSpace line @ b)"
proof -
  have "assembleURLs w cfg = Inr (args cfg)" if "inputFile cfg = []"
    using that by (simp add: assembleURLs_def)
  moreover have "assembleURLs w cfg =
      Inr (args cfg @ filter (\<lambda>url. url \<noteq> []) (map TrimSpace (Split data)))"
    if "inputFile cfg \<noteq> [] \<and> readFile w (inputFile cfg) = Inr data"
    using that by (simp add: assembleURLs_def readURLsFromFile_eq)
  ultimately show ?thesis
    using Join_Split [of data] TrimSpace_blank [of line] TrimSpace_ends [of line]
      TrimSpace_part [of line]
    by blast
qed

lemma world_file_lines:
  "filter (\<lambda>url. url \<noteq> [])
     (map TrimSpace (Split ''  https://a.example \<newline>\<newline>   \<newline>b.example\<newline>'')) =
   [''https://a.example'', ''b.example'']"
  by code_simp

theorem C7_url_list_witness:
  "assembleURLs world_file ((example_config False [''c.example''])\<lparr>inputFile := ''urls.txt''\<rparr>) =
     Inr [''c.example'', ''https://a.example'', ''b.example'']
   \<and> assembleURLs world_file (example_config False [''c.example'']) = Inr [''c.example'']
   \<and> TrimSpace ''   '' = []"
proof -
  let ?cfg = "(example_config False [''c.example''])\<lparr>inputFile := ''urls.txt''\<rparr>"
  let ?data = "''  https://a.example \<newline>\<newline>   \<newline>b.example\<newline>''"
  have withfile: "inputFile ?cfg \<noteq> [] \<and> readFile world_file (inputFile ?cfg) = Inr ?data"
    by (simp add: world_file_def example_config_def)
  have nofile: "inputFile (example_config False [''c.example'']) = []"
    by (simp add: example_config_def)
  have blank: "\<forall>c \<in> set ''   ''. asciiSpace c"
    by (simp add: asciiSpace_def)
  have a: "args ?cfg = [''c.example'']" "args (example_config False [''c.example'']) = [''c.example'']"
    by (simp_all add: example_config_def)
  have "assembleURLs world_file ?cfg =
          Inr (args ?cfg @ filter (\<lambda>url. url \<noteq> []) (map TrimSpace (Split ?data)))"
    using C7_url_list [of ?cfg world_file ?data "''   ''"] withfile by blast
  moreover have "assembleURLs world_file (example_config False [''c.example'']) =
          Inr (args (example_config False [''c.example'']))"
    using C7_url_list [of "example_config False [''c.example'']" world_file ?data "''   ''"] nofile
    by blast
  moreover have "TrimSpace ''   '' = []"
    using C7_url_list [of ?cfg world_file ?data "''   ''"] blank by blast
  ultimately show ?thesis
    by (simp only: world_file_lines a) simp
qed

end
